theory Spec2Isabelle
  imports Complex_Main "HOL-Library.Sublist" "HOL-Library.Log_Nat"
begin

section \<open>The option strategy analyzer (app.py)\<close>

text \<open>
  The numerical core of \<^verbatim>\<open>app.py\<close>: the payoff of a list of option legs over a grid of
  terminal prices, the break-even points of the resulting curve, the margin of a named
  strategy and the return on capital.

  The numbers of the script are binary64 floats. Where the script only evaluates a formula
  (the payoff, the capital basis, the returns) they are modelled by \<^typ>\<open>real\<close> and
  \<^typ>\<open>real list\<close> with exact arithmetic: the code can differ from the model by the
  rounding of that formula only. Where a comparison, a count or the order of the results
  depends on the rounding (the net premium test of the margin, the break-even points, the
  price grid) the arithmetic is that of binary64, defined below. The two special floats the
  script produces on purpose, \<^verbatim>\<open>np.nan\<close> and \<^verbatim>\<open>float('inf')\<close>, are constructors of
  their own. Exceptions are values of \<open>py_error\<close>.
\<close>

subsection \<open>Data\<close>

datatype py_error = ValueError | IndexError | OverflowError

datatype pyfloat = Fin real | PosInf | NaN

text \<open>
  A leg is the dictionary \<^verbatim>\<open>{'type': ..., 'strike': ..., 'premium': ...}\<close>; the script
  builds every leg with exactly these three keys, a string and two numbers.
\<close>

record leg =
  type :: string
  strike :: real
  premium :: real

subsection \<open>calculate\_payoff (lines 17--23)\<close>

text \<open>
  \<^verbatim>\<open>leg['type'].startswith('long')\<close> is \<^const>\<open>prefix\<close>, \<^verbatim>\<open>'call' in leg['type']\<close> is
  \<^const>\<open>sublist\<close> (a contiguous substring).
\<close>

definition direction :: "leg \<Rightarrow> real" where
  "direction l = (if prefix ''long'' (type l) then 1 else - 1)"

definition option_type :: "leg \<Rightarrow> bool" where
  "option_type l = sublist ''call'' (type l)"

definition intrinsic_value :: "real list \<Rightarrow> leg \<Rightarrow> real list" where
  "intrinsic_value S l =
     (if option_type l then map (\<lambda>s. max 0 (s - strike l)) S
      else map (\<lambda>s. max 0 (strike l - s)) S)"

text \<open>The loop over the legs, threading the array \<open>total_payoff_points\<close>.\<close>

fun payoff_loop :: "real list \<Rightarrow> real list \<Rightarrow> leg list \<Rightarrow> real list" where
  "payoff_loop S total_payoff_points [] = total_payoff_points"
| "payoff_loop S total_payoff_points (l # ls) =
     payoff_loop S (map2 (+) total_payoff_points (map (\<lambda>v. direction l * v) (intrinsic_value S l))) ls"

definition calculate_payoff :: "real list \<Rightarrow> leg list \<Rightarrow> real list" where
  "calculate_payoff S strategy_details =
     payoff_loop S (replicate (length S) 0) strategy_details"

subsection \<open>Binary64 arithmetic\<close>

text \<open>
  A binary64 value is a finite number, an infinity or not-a-number. A finite argument of
  the operations below is meant to be a binary64 number; the two zeros are one value, which
  no operation of the script tells apart. \<open>exponent x\<close> is the integer \<open>e\<close> with
  \<open>2\<^sup>e \<le> \<bar>x\<bar> < 2\<^sup>e\<^sup>+\<^sup>1\<close>; \<open>round64\<close> rounds a real number to the nearest binary64
  value, ties to the even significand, with gradual underflow below \<open>2\<^sup>-\<^sup>1\<^sup>0\<^sup>2\<^sup>2\<close> and
  overflow to an infinity. Python and numpy arithmetic on floats is the exact operation
  followed by \<open>round64\<close>; an overflow gives an infinity, not an exception.
\<close>

datatype f64 = Finite real | PInf | NInf | NaN64

definition exponent :: "real \<Rightarrow> int" where
  "exponent x =
     (if 1 \<le> \<bar>x\<bar> then bitlen \<lfloor>\<bar>x\<bar>\<rfloor> - 1 else - bitlen (\<lceil>1 / \<bar>x\<bar>\<rceil> - 1))"

definition round_half_even :: "real \<Rightarrow> int" where
  "round_half_even x =
     (let f = \<lfloor>x\<rfloor>; r = x - of_int f
      in if r < 1 / 2 then f else if 1 / 2 < r then f + 1 else if even f then f else f + 1)"

definition round64 :: "real \<Rightarrow> f64" where
  "round64 x =
     (if x = 0 then Finite 0
      else
        let q = 2 powi (max (exponent x) (- 1022) - 52);
            y = of_int (round_half_even (x / q)) * q
        in if 2 ^ 1024 \<le> \<bar>y\<bar> then (if 0 < x then PInf else NInf) else Finite y)"

text \<open>
  A decimal literal of Python, such as \<^verbatim>\<open>1.05\<close>, denotes the binary64 number nearest to
  it: \<open>lit (105 / 100)\<close>.
\<close>

definition lit :: "real \<Rightarrow> real" where
  "lit x = (case round64 x of Finite y \<Rightarrow> y | _ \<Rightarrow> 0)"

fun fneg :: "f64 \<Rightarrow> f64" where
  "fneg (Finite a) = Finite (- a)"
| "fneg PInf = NInf"
| "fneg NInf = PInf"
| "fneg NaN64 = NaN64"

fun fadd :: "f64 \<Rightarrow> f64 \<Rightarrow> f64" where
  "fadd (Finite a) (Finite b) = round64 (a + b)"
| "fadd (Finite a) PInf = PInf"
| "fadd (Finite a) NInf = NInf"
| "fadd PInf (Finite b) = PInf"
| "fadd NInf (Finite b) = NInf"
| "fadd PInf PInf = PInf"
| "fadd NInf NInf = NInf"
| "fadd PInf NInf = NaN64"
| "fadd NInf PInf = NaN64"
| "fadd NaN64 y = NaN64"
| "fadd x NaN64 = NaN64"

definition fsub :: "f64 \<Rightarrow> f64 \<Rightarrow> f64" where
  "fsub x y = fadd x (fneg y)"

fun fmul :: "f64 \<Rightarrow> f64 \<Rightarrow> f64" where
  "fmul (Finite a) (Finite b) = round64 (a * b)"
| "fmul (Finite a) PInf = (if a = 0 then NaN64 else if 0 < a then PInf else NInf)"
| "fmul (Finite a) NInf = (if a = 0 then NaN64 else if 0 < a then NInf else PInf)"
| "fmul PInf (Finite b) = (if b = 0 then NaN64 else if 0 < b then PInf else NInf)"
| "fmul NInf (Finite b) = (if b = 0 then NaN64 else if 0 < b then NInf else PInf)"
| "fmul PInf PInf = PInf"
| "fmul NInf NInf = PInf"
| "fmul PInf NInf = NInf"
| "fmul NInf PInf = NInf"
| "fmul NaN64 y = NaN64"
| "fmul x NaN64 = NaN64"

text \<open>
  The script divides by a number it has just compared with zero (line 27) and by the
  literal \<^verbatim>\<open>0.5\<close> (inside \<^verbatim>\<open>np.arange\<close>); the quotient by zero is that of numpy scalars.
\<close>

fun fdiv :: "f64 \<Rightarrow> f64 \<Rightarrow> f64" where
  "fdiv (Finite a) (Finite b) =
     (if b = 0 then (if a = 0 then NaN64 else if 0 < a then PInf else NInf)
      else round64 (a / b))"
| "fdiv (Finite a) PInf = Finite 0"
| "fdiv (Finite a) NInf = Finite 0"
| "fdiv PInf (Finite b) = (if 0 \<le> b then PInf else NInf)"
| "fdiv NInf (Finite b) = (if 0 \<le> b then NInf else PInf)"
| "fdiv PInf PInf = NaN64"
| "fdiv NInf NInf = NaN64"
| "fdiv PInf NInf = NaN64"
| "fdiv NInf PInf = NaN64"
| "fdiv NaN64 y = NaN64"
| "fdiv x NaN64 = NaN64"

text \<open>The comparisons \<^verbatim>\<open><=\<close> and \<^verbatim>\<open><\<close>; both are false when an argument is not a number.\<close>

fun fle :: "f64 \<Rightarrow> f64 \<Rightarrow> bool" where
  "fle (Finite a) (Finite b) = (a \<le> b)"
| "fle (Finite a) PInf = True"
| "fle (Finite a) NInf = False"
| "fle PInf (Finite b) = False"
| "fle NInf (Finite b) = True"
| "fle PInf PInf = True"
| "fle NInf NInf = True"
| "fle PInf NInf = False"
| "fle NInf PInf = True"
| "fle NaN64 y = False"
| "fle x NaN64 = False"

fun flt :: "f64 \<Rightarrow> f64 \<Rightarrow> bool" where
  "flt (Finite a) (Finite b) = (a < b)"
| "flt (Finite a) PInf = True"
| "flt (Finite a) NInf = False"
| "flt PInf (Finite b) = False"
| "flt NInf (Finite b) = True"
| "flt PInf PInf = False"
| "flt NInf NInf = False"
| "flt PInf NInf = False"
| "flt NInf PInf = True"
| "flt NaN64 y = False"
| "flt x NaN64 = False"

subsection \<open>find\_break\_even\_points (lines 25--28)\<close>

text \<open>The three numpy functions of line 26, on one-dimensional arrays.\<close>

definition np_sign :: "real \<Rightarrow> real" where
  "np_sign x = (if x < 0 then - 1 else if x = 0 then 0 else 1)"

definition np_diff :: "real list \<Rightarrow> real list" where
  "np_diff a = map (\<lambda>i. a ! (i + 1) - a ! i) [0..<length a - 1]"

definition np_where :: "real list \<Rightarrow> nat list" where
  "np_where a = filter (\<lambda>i. a ! i \<noteq> 0) [0..<length a]"

text \<open>
  The list comprehension of line 27, in binary64. The indices come from \<open>PnL\<close>, so
  \<^verbatim>\<open>PnL[i+1]\<close> is in range; \<^verbatim>\<open>S[i+1]\<close> raises \<^verbatim>\<open>IndexError\<close> when \<open>S\<close> is shorter.
  The elements of the two arrays are finite.
\<close>

fun break_evens :: "real list \<Rightarrow> real list \<Rightarrow> nat list \<Rightarrow> py_error + f64 list" where
  "break_evens S PnL [] = Inr []"
| "break_evens S PnL (i # indices) =
     (if fsub (Finite (PnL ! (i + 1))) (Finite (PnL ! i)) \<noteq> Finite 0 then
        (if i + 1 < length S then
           (case break_evens S PnL indices of
              Inl e \<Rightarrow> Inl e
            | Inr rest \<Rightarrow>
                Inr (fsub (Finite (S ! i))
                       (fdiv (fmul (Finite (PnL ! i))
                                   (fsub (Finite (S ! (i + 1))) (Finite (S ! i))))
                             (fsub (Finite (PnL ! (i + 1))) (Finite (PnL ! i)))) # rest))
         else Inl IndexError)
      else break_evens S PnL indices)"

definition find_break_even_points :: "real list \<Rightarrow> real list \<Rightarrow> py_error + f64 list" where
  "find_break_even_points S PnL = break_evens S PnL (np_where (np_diff (map np_sign PnL)))"

subsection \<open>calculate\_us\_margin (lines 30--40)\<close>

text \<open>
  Line 31: \<^verbatim>\<open>sum\<close> starts from 0 and adds the signed premiums from left to right, rounding
  each partial sum (the loop of CPython up to version 3.11; the compensated summation of
  later versions is not modelled).
\<close>

definition net_premium :: "leg list \<Rightarrow> f64" where
  "net_premium strategy_details =
     foldl fadd (Finite 0)
       (map (\<lambda>l. if prefix ''short'' (type l) then Finite (premium l) else Finite (- premium l))
            strategy_details)"

text \<open>Python's \<^verbatim>\<open>max\<close> and \<^verbatim>\<open>min\<close> of a list raise \<^verbatim>\<open>ValueError\<close> on the empty list.\<close>

fun py_max :: "real list \<Rightarrow> py_error + real" where
  "py_max [] = Inl ValueError"
| "py_max (x # xs) = Inr (fold max xs x)"

fun py_min :: "real list \<Rightarrow> py_error + real" where
  "py_min [] = Inl ValueError"
| "py_min (x # xs) = Inr (fold min xs x)"

definition calculate_us_margin :: "string \<Rightarrow> leg list \<Rightarrow> real \<Rightarrow> py_error + f64" where
  "calculate_us_margin strategy_name strategy_details multiplier =
     (if fle (net_premium strategy_details) (Finite 0) then Inr (Finite 0)
      else if strategy_name \<in> set [''Iron Condor'', ''Bull Put Spread'', ''Bear Call Spread''] then
        (let k_values = map strike strategy_details in
         case py_max k_values of
           Inl e \<Rightarrow> Inl e
         | Inr hi \<Rightarrow>
            (case py_min k_values of
               Inl e \<Rightarrow> Inl e
             | Inr lo \<Rightarrow>
                 (let margin = fmul (fsub (Finite hi) (Finite lo)) (Finite multiplier) in
                  if strategy_name = ''Iron Condor'' then
                    (let k_calls = sort (map strike
                           (filter (\<lambda>l. sublist ''call'' (type l)) strategy_details)) in
                     if length k_calls < 2 then Inl IndexError
                     else Inr (fmul (fsub (Finite (k_calls ! 1)) (Finite (k_calls ! 0)))
                                    (Finite multiplier)))
                  else Inr margin)))
      else Inr (Finite 0))"

subsection \<open>The main panel (lines 133--159)\<close>

text \<open>
  \<^verbatim>\<open>np.arange(start, stop, 0.5)\<close>, the one way the script calls it. numpy computes the
  number of points as the ceiling of the binary64 quotient \<open>(stop - start) / 0.5\<close> and
  raises when that is not a number (\<^verbatim>\<open>ValueError\<close>) or not a machine integer
  (\<^verbatim>\<open>OverflowError\<close>); a count of zero or less gives the empty array. The first point is
  \<open>start\<close>, the second \<open>start + 0.5\<close>, and the point of index \<open>i \<ge> 2\<close> is
  \<open>start + i * delta\<close> with \<open>delta\<close> the difference of the first two, each operation rounded
  (no fused multiply-add). Running out of memory for a long array is not modelled.
\<close>

definition np_arange :: "f64 \<Rightarrow> f64 \<Rightarrow> py_error + f64 list" where
  "np_arange start stop =
     (case fdiv (fsub stop start) (Finite (1 / 2)) of
        NaN64 \<Rightarrow> Inl ValueError
      | PInf \<Rightarrow> Inl OverflowError
      | NInf \<Rightarrow> Inl OverflowError
      | Finite v \<Rightarrow>
          if \<lceil>v\<rceil> < - (2 ^ 63) \<or> 2 ^ 63 < \<lceil>v\<rceil> then Inl OverflowError
          else
            (let next = fadd start (Finite (1 / 2));
                 delta = fsub next start
             in Inr (map (\<lambda>i. if i = 0 then start
                              else if i = 1 then next
                              else fadd start (fmul (round64 (real i)) delta))
                         [0..<nat \<lceil>v\<rceil>])))"

definition buffer :: "real \<Rightarrow> real \<Rightarrow> f64" where
  "buffer min_strike max_strike =
     (if max_strike > min_strike
      then fmul (fsub (Finite max_strike) (Finite min_strike)) (Finite (3 / 2))
      else Finite 20)"

text \<open>Lines 133--135: the price grid \<open>S\<close> of the list \<open>strikes\<close>.\<close>

definition S_grid :: "real list \<Rightarrow> py_error + f64 list" where
  "S_grid strikes =
     (case py_min strikes of
        Inl e \<Rightarrow> Inl e
      | Inr min_strike \<Rightarrow>
         (case py_max strikes of
            Inl e \<Rightarrow> Inl e
          | Inr max_strike \<Rightarrow>
              np_arange (fsub (Finite min_strike) (buffer min_strike max_strike))
                        (fadd (Finite max_strike) (buffer min_strike max_strike))))"

definition net_premium_points :: "leg list \<Rightarrow> real" where
  "net_premium_points strategy_details =
     sum_list (map (\<lambda>l. if prefix ''short'' (type l) then premium l else - premium l)
                   strategy_details)"

definition pnl_currency :: "real list \<Rightarrow> leg list \<Rightarrow> real \<Rightarrow> real list" where
  "pnl_currency S strategy_details multiplier =
     map (\<lambda>v. (v + net_premium_points strategy_details) * multiplier)
         (calculate_payoff S strategy_details)"

definition net_cost_credit :: "leg list \<Rightarrow> real \<Rightarrow> real" where
  "net_cost_credit strategy_details multiplier = net_premium_points strategy_details * multiplier"

text \<open>
  Lines 143--159. In the three definitions below \<open>credit\<close> is the value of the variable
  \<^verbatim>\<open>net_cost_credit\<close> and \<open>basis\<close> the value of \<^verbatim>\<open>cost_basis\<close>.
\<close>

definition cost_basis :: "real \<Rightarrow> real \<Rightarrow> real" where
  "cost_basis credit margin = (if credit < 0 then \<bar>credit\<bar> else margin)"

definition roi_per_point :: "real list \<Rightarrow> real \<Rightarrow> pyfloat list" where
  "roi_per_point pnl basis =
     (if basis > 0 then map (\<lambda>p. Fin ((p / basis) * 100)) pnl
      else replicate (length pnl) NaN)"

definition total_roi :: "real \<Rightarrow> real \<Rightarrow> real \<Rightarrow> pyfloat" where
  "total_roi max_profit credit basis =
     (if credit < 0 then
        (if basis > 0 then Fin ((max_profit / basis) * 100) else PosInf)
      else
        (if basis > 0 then Fin ((credit / basis) * 100) else PosInf))"

subsection \<open>The contracts of the specification\<close>

text \<open>
  The specification describes a leg by two enumerations instead of the string tag. The
  script's four tags are \<^verbatim>\<open>long_call\<close>, \<^verbatim>\<open>short_call\<close>, \<^verbatim>\<open>long_put\<close> and
  \<^verbatim>\<open>short_put\<close> (lines 68--124); \<open>encode\<close> builds the script's dictionary of a leg of
  the specification.
\<close>

datatype option_class = Call | Put

datatype leg_direction = Long | Short

record spec_leg =
  optionClass :: option_class
  legDirection :: leg_direction
  legStrike :: real
  legPremium :: real

fun tag :: "leg_direction \<Rightarrow> option_class \<Rightarrow> string" where
  "tag Long Call = ''long_call''"
| "tag Short Call = ''short_call''"
| "tag Long Put = ''long_put''"
| "tag Short Put = ''short_put''"

definition encode :: "spec_leg \<Rightarrow> leg" where
  "encode l = \<lparr>type = tag (legDirection l) (optionClass l),
               strike = legStrike l, premium = legPremium l\<rparr>"

text \<open>Section 4.2 of the specification, in its words.\<close>

definition intrinsic :: "real \<Rightarrow> spec_leg \<Rightarrow> real" where
  "intrinsic price l =
     (case optionClass l of
        Call \<Rightarrow> max 0 (price - legStrike l)
      | Put \<Rightarrow> max 0 (legStrike l - price))"

definition signedIntrinsic :: "real \<Rightarrow> spec_leg \<Rightarrow> real" where
  "signedIntrinsic price l =
     (case legDirection l of Long \<Rightarrow> intrinsic price l | Short \<Rightarrow> - intrinsic price l)"

definition signedPremium :: "spec_leg \<Rightarrow> real" where
  "signedPremium l = (case legDirection l of Short \<Rightarrow> legPremium l | Long \<Rightarrow> - legPremium l)"

definition intrinsicPayoff :: "real \<Rightarrow> spec_leg list \<Rightarrow> real" where
  "intrinsicPayoff price legs = (\<Sum>l\<leftarrow>legs. signedIntrinsic price l)"

definition netPremiumPerUnit :: "spec_leg list \<Rightarrow> real" where
  "netPremiumPerUnit legs = (\<Sum>l\<leftarrow>legs. signedPremium l)"

definition netPayoffCurrency :: "real \<Rightarrow> spec_leg list \<Rightarrow> real \<Rightarrow> real" where
  "netPayoffCurrency price legs multiplier =
     (intrinsicPayoff price legs + netPremiumPerUnit legs) * multiplier"

text \<open>
  Section 4.5 of the specification, in its words: the sign of a value is one of three
  buckets, and a crossing is the linear interpolation between two adjacent grid points.
\<close>

datatype sign_bucket = Negative | Zero | Positive

definition bucket :: "real \<Rightarrow> sign_bucket" where
  "bucket x = (if x < 0 then Negative else if x = 0 then Zero else Positive)"

text \<open>
  The interpolation of one adjacent pair: \<open>crossing\<close> in exact arithmetic, \<open>crossing64\<close> as
  binary64 evaluates the same expression.
\<close>

definition crossing :: "real list \<Rightarrow> real list \<Rightarrow> nat \<Rightarrow> real" where
  "crossing prices pnl i =
     prices ! i - pnl ! i * (prices ! (i + 1) - prices ! i) / (pnl ! (i + 1) - pnl ! i)"

definition crossing64 :: "real list \<Rightarrow> real list \<Rightarrow> nat \<Rightarrow> f64" where
  "crossing64 prices pnl i =
     fsub (Finite (prices ! i))
       (fdiv (fmul (Finite (pnl ! i)) (fsub (Finite (prices ! (i + 1))) (Finite (prices ! i))))
             (fsub (Finite (pnl ! (i + 1))) (Finite (pnl ! i))))"

text \<open>The adjacent pairs that record a crossing, by the index of their left point.\<close>

definition crossing_pairs :: "real list \<Rightarrow> nat list" where
  "crossing_pairs pnl =
     filter (\<lambda>i. bucket (pnl ! i) \<noteq> bucket (pnl ! (i + 1)) \<and>
                  fsub (Finite (pnl ! (i + 1))) (Finite (pnl ! i)) \<noteq> Finite 0)
       [0..<length pnl - 1]"

definition findCrossings :: "real list \<Rightarrow> real list \<Rightarrow> f64 list" where
  "findCrossings prices pnl = map (crossing64 prices pnl) (crossing_pairs pnl)"

text \<open>
  Section 4.1 of the specification, in its words: the arithmetic sequence from the low
  bound, in increments of the step, of the points strictly before the high bound.
\<close>

datatype spec_error = InvalidRangeError

definition generate :: "real \<Rightarrow> real \<Rightarrow> real \<Rightarrow> spec_error + real list" where
  "generate lowBound highBound step =
     (if step \<le> 0 \<or> highBound \<le> lowBound then Inl InvalidRangeError
      else Inr (map (\<lambda>i. lowBound + real i * step)
                    [0..<nat \<lceil>(highBound - lowBound) / step\<rceil>]))"

text \<open>The value of \<^verbatim>\<open>calculate_payoff\<close> at one price of the grid.\<close>

definition payoff_at :: "real \<Rightarrow> leg list \<Rightarrow> real" where
  "payoff_at s legs =
     (\<Sum>l\<leftarrow>legs. direction l *
        (if option_type l then max 0 (s - strike l) else max 0 (strike l - s)))"

section \<open>Properties\<close>

subsection \<open>String tests on the four tags\<close>

lemma call_in_tag:
  "sublist ''call'' ''long_call''" "sublist ''call'' ''short_call''"
  "\<not> sublist ''call'' ''long_put''" "\<not> sublist ''call'' ''short_put''"
  "\<not> sublist ''call'' ''x''"
  by (simp_all add: sublist_code(3))

lemma direction_encode:
  "direction (encode l) = (case legDirection l of Long \<Rightarrow> 1 | Short \<Rightarrow> - 1)"
  by (cases "legDirection l"; cases "optionClass l") (simp_all add: direction_def encode_def)

lemma option_type_encode: "option_type (encode l) \<longleftrightarrow> optionClass l = Call"
  by (cases "legDirection l"; cases "optionClass l")
     (simp_all add: option_type_def encode_def call_in_tag)

lemma fields_encode: "strike (encode l) = legStrike l" "premium (encode l) = legPremium l"
  by (simp_all add: encode_def)

lemma short_encode: "prefix ''short'' (type (encode l)) \<longleftrightarrow> legDirection l = Short"
  by (cases "legDirection l"; cases "optionClass l") (simp_all add: encode_def)

subsection \<open>The payoff loop, point by point\<close>

lemma payoff_loop_length:
  "length tot = length S \<Longrightarrow> length (payoff_loop S tot ls) = length S"
  by (induction ls arbitrary: tot) (simp_all add: intrinsic_value_def)

lemma payoff_loop_nth:
  "length tot = length S \<Longrightarrow> i < length S \<Longrightarrow>
     payoff_loop S tot ls ! i = tot ! i + payoff_at (S ! i) ls"
proof (induction ls arbitrary: tot)
  case Nil
  then show ?case by (simp add: payoff_at_def)
next
  case (Cons l ls)
  let ?tot = "map2 (+) tot (map (\<lambda>v. direction l * v) (intrinsic_value S l))"
  have len: "length ?tot = length S"
    using Cons.prems by (simp add: intrinsic_value_def)
  have "payoff_loop S tot (l # ls) ! i = ?tot ! i + payoff_at (S ! i) ls"
    using Cons.IH [OF len Cons.prems(2)] by simp
  also have "?tot ! i = tot ! i + direction l *
      (if option_type l then max 0 (S ! i - strike l) else max 0 (strike l - S ! i))"
    using Cons.prems by (simp add: intrinsic_value_def)
  finally show ?case by (simp add: payoff_at_def)
qed

lemma calculate_payoff_pointwise:
  "calculate_payoff S legs = map (\<lambda>s. payoff_at s legs) S"
  by (rule nth_equalityI)
     (simp_all add: calculate_payoff_def payoff_loop_length payoff_loop_nth)

lemma payoff_at_encode: "payoff_at price (map encode legs) = intrinsicPayoff price legs"
proof (induction legs)
  case Nil
  show ?case by (simp add: payoff_at_def intrinsicPayoff_def)
next
  case (Cons l legs)
  have "direction (encode l) *
          (if option_type (encode l) then max 0 (price - strike (encode l))
           else max 0 (strike (encode l) - price)) = signedIntrinsic price l"
    by (cases "legDirection l"; cases "optionClass l")
       (simp_all add: direction_encode option_type_encode signedIntrinsic_def intrinsic_def
          fields_encode)
  with Cons show ?case by (simp add: payoff_at_def intrinsicPayoff_def)
qed

lemma net_premium_points_encode:
  "net_premium_points (map encode legs) = netPremiumPerUnit legs"
proof (induction legs)
  case Nil
  show ?case by (simp add: net_premium_points_def netPremiumPerUnit_def)
next
  case (Cons l legs)
  have "(if prefix ''short'' (type (encode l)) then premium (encode l) else - premium (encode l))
          = signedPremium l"
    by (cases "legDirection l") (simp_all add: short_encode signedPremium_def fields_encode)
  with Cons show ?case by (simp add: net_premium_points_def netPremiumPerUnit_def)
qed

text \<open>
  C1. For every grid of prices, every list of legs given by class, direction, strike and
  premium, and every multiplier, the net currency payoff computed by the script is, at each
  price, the sum of the signed intrinsic values plus the net premium per unit, times the
  multiplier; a leg that occurs twice contributes twice.
\<close>

theorem net_payoff_currency_formula:
  "pnl_currency S (map encode legs) m = map (\<lambda>price. netPayoffCurrency price legs m) S \<and>
   pnl_currency S (map encode (l # l # legs)) m =
     map (\<lambda>price. (2 * signedIntrinsic price l + intrinsicPayoff price legs +
                    (2 * signedPremium l + netPremiumPerUnit legs)) * m) S"
proof -
  have eq: "pnl_currency S (map encode ls) m = map (\<lambda>price. netPayoffCurrency price ls m) S"
    for ls
    by (simp add: pnl_currency_def calculate_payoff_pointwise payoff_at_encode
        net_premium_points_encode netPayoffCurrency_def)
  have "netPayoffCurrency price (l # l # legs) m =
          (2 * signedIntrinsic price l + intrinsicPayoff price legs +
           (2 * signedPremium l + netPremiumPerUnit legs)) * m" for price
    by (simp add: netPayoffCurrency_def intrinsicPayoff_def netPremiumPerUnit_def)
  then show ?thesis
    using eq [of legs] eq [of "l # l # legs"] by simp
qed

theorem net_payoff_currency_formula_witness:
  "pnl_currency [95, 100, 105, 110, 120]
     (map encode
        [\<lparr>optionClass = Call, legDirection = Long, legStrike = 100, legPremium = 5 / 2\<rparr>,
         \<lparr>optionClass = Call, legDirection = Short, legStrike = 110, legPremium = 4 / 5\<rparr>]) 100
   = [- 170, - 170, 330, 830, 830]"
  using net_payoff_currency_formula
    [of "[95, 100, 105, 110, 120]"
        "[\<lparr>optionClass = Call, legDirection = Long, legStrike = 100, legPremium = 5 / 2\<rparr>,
          \<lparr>optionClass = Call, legDirection = Short, legStrike = 110, legPremium = 4 / 5\<rparr>]"
        100]
  by (simp add: netPayoffCurrency_def intrinsicPayoff_def netPremiumPerUnit_def
      signedIntrinsic_def signedPremium_def intrinsic_def)

text \<open>
  C9. The payoff computation has no failing branch: for every grid and every list of legs,
  whatever the tags, it returns one value per grid point. A tag that does not start with
  \<^verbatim>\<open>long\<close> counts as short and a tag that does not contain \<^verbatim>\<open>call\<close> counts as a put,
  so that the tag \<^verbatim>\<open>x\<close> gives the payoff of a short put.
\<close>

theorem calculate_payoff_any_tag:
  "length (calculate_payoff S legs) = length S \<and>
   calculate_payoff S legs =
     map (\<lambda>s. \<Sum>l\<leftarrow>legs. (if prefix ''long'' (type l) then 1 else - 1) *
            (if sublist ''call'' (type l) then max 0 (s - strike l) else max 0 (strike l - s))) S \<and>
   (\<not> prefix ''long'' (type l) \<longrightarrow>
      calculate_payoff S [l] = map (\<lambda>v. - v) (intrinsic_value S l)) \<and>
   (\<not> sublist ''call'' (type l) \<longrightarrow>
      intrinsic_value S l = map (\<lambda>s. max 0 (strike l - s)) S) \<and>
   calculate_payoff S (\<lparr>type = ''x'', strike = k, premium = p\<rparr> # legs) =
     calculate_payoff S (\<lparr>type = ''short_put'', strike = k, premium = q\<rparr> # legs)"
proof -
  have "calculate_payoff S [l] = map (\<lambda>v. - v) (intrinsic_value S l)"
    if "\<not> prefix ''long'' (type l)"
    using that
    by (simp add: calculate_payoff_pointwise payoff_at_def direction_def intrinsic_value_def)
  moreover have "payoff_at s (\<lparr>type = ''x'', strike = k, premium = p\<rparr> # legs) =
      payoff_at s (\<lparr>type = ''short_put'', strike = k, premium = q\<rparr> # legs)" for s
    by (simp add: payoff_at_def direction_def option_type_def call_in_tag)
  ultimately show ?thesis
    by (simp add: calculate_payoff_pointwise payoff_at_def direction_def option_type_def
        intrinsic_value_def)
qed

theorem calculate_payoff_any_tag_witness:
  "\<not> prefix ''long'' ''x'' \<and> \<not> sublist ''call'' ''x'' \<and>
   calculate_payoff [90, 100, 110] [\<lparr>type = ''x'', strike = 100, premium = 1\<rparr>] = [- 10, 0, 0]"
  using calculate_payoff_any_tag
    [of "[90, 100, 110]" "[\<lparr>type = ''x'', strike = 100, premium = 1\<rparr>]"
        "\<lparr>type = ''x'', strike = 100, premium = 1\<rparr>" 100 1 1]
  by (simp add: call_in_tag)

subsection \<open>Evaluating binary64 arithmetic\<close>

text \<open>The equations that compute \<open>round64\<close> on a number given by numerals.\<close>

lemmas float_eval =
  round64_def exponent_def compute_bitlen round_half_even_def Let_def lit_def fsub_def

lemma round64_not_nan: "round64 x \<noteq> NaN64"
  by (simp add: round64_def Let_def)

lemma not_fle_zero: "\<not> fle x (Finite 0) \<longleftrightarrow> flt (Finite 0) x \<or> x = NaN64"
  by (cases x) auto

subsection \<open>Break-even points\<close>

lemma bucket_np_sign: "bucket x = bucket y \<longleftrightarrow> np_sign x = np_sign y"
  by (simp add: bucket_def np_sign_def)

lemma np_where_diff_sign:
  "np_where (np_diff (map np_sign PnL)) =
     filter (\<lambda>i. np_sign (PnL ! i) \<noteq> np_sign (PnL ! (i + 1))) [0..<length PnL - 1]"
proof -
  have "filter (\<lambda>i. np_diff (map np_sign PnL) ! i \<noteq> 0) [0..<length PnL - 1] =
        filter (\<lambda>i. np_sign (PnL ! i) \<noteq> np_sign (PnL ! (i + 1))) [0..<length PnL - 1]"
    by (rule filter_cong) (auto simp: np_diff_def)
  then show ?thesis by (simp add: np_where_def np_diff_def)
qed

lemma break_evens_in_range:
  "\<forall>i \<in> set indices. i + 1 < length S \<Longrightarrow>
     break_evens S PnL indices =
       Inr (map (crossing64 S PnL)
              (filter (\<lambda>i. fsub (Finite (PnL ! (i + 1))) (Finite (PnL ! i)) \<noteq> Finite 0) indices))"
  by (induction indices) (simp_all add: crossing64_def)

text \<open>
  Without rounding, the interpolated point of a sign change lies between the two grid
  points.
\<close>

lemma crossing_between:
  assumes "np_sign a \<noteq> np_sign b" and "p \<le> q"
  shows "p \<le> p - a * (q - p) / (b - a) \<and> p - a * (q - p) / (b - a) \<le> q"
proof -
  define t where "t = a / (a - b)"
  have ab: "a \<noteq> b" using assms(1) by auto
  have t0: "0 \<le> t" and t1: "t \<le> 1"
    using assms(1) unfolding t_def np_sign_def
    by (auto simp: field_simps split: if_splits)
  have eq: "p - a * (q - p) / (b - a) = p + t * (q - p)"
    using ab by (simp add: t_def field_simps)
  have "0 \<le> t * (q - p)" using t0 assms(2) by simp
  moreover have "t * (q - p) \<le> 1 * (q - p)"
    using t1 assms(2) by (intro mult_right_mono) simp_all
  ultimately show ?thesis unfolding eq by simp
qed

lemma find_break_even_points_eq:
  assumes "length prices = length pnl"
  shows "find_break_even_points prices pnl = Inr (findCrossings prices pnl)"
proof -
  have "\<forall>i \<in> set (np_where (np_diff (map np_sign pnl))). i + 1 < length prices"
    using assms by (auto simp: np_where_diff_sign)
  then show ?thesis
    by (simp add: find_break_even_points_def break_evens_in_range findCrossings_def
        crossing_pairs_def np_where_diff_sign bucket_np_sign conj_commute)
qed

lemma exact_crossings_sorted:
  assumes "length prices = length pnl" and "sorted_wrt (<) prices"
  shows "sorted (map (crossing prices pnl) (crossing_pairs pnl))"
proof -
  let ?is = "crossing_pairs pnl"
  have mono: "prices ! i \<le> prices ! j" if "i \<le> j" "j < length prices" for i j
    using that assms(2) sorted_wrt_nth_less [of "(<)" prices i j]
    by (cases "i = j") auto
  have step: "crossing prices pnl i \<le> crossing prices pnl j"
    if "i \<in> set ?is" "j \<in> set ?is" "i < j" for i j
  proof -
    have i: "i + 1 < length prices" "np_sign (pnl ! i) \<noteq> np_sign (pnl ! (i + 1))"
      and j: "j + 1 < length prices" "np_sign (pnl ! j) \<noteq> np_sign (pnl ! (j + 1))"
      using that assms(1) by (auto simp: bucket_np_sign crossing_pairs_def)
    have "crossing prices pnl i \<le> prices ! (i + 1)"
      using crossing_between [OF i(2) mono [of i "i + 1"]] i(1) by (simp add: crossing_def)
    also have "\<dots> \<le> prices ! j" using that(3) j(1) by (intro mono) simp_all
    also have "\<dots> \<le> crossing prices pnl j"
      using crossing_between [OF j(2) mono [of j "j + 1"]] j(1) by (simp add: crossing_def)
    finally show ?thesis .
  qed
  have "sorted_wrt (<) ?is" unfolding crossing_pairs_def by (intro sorted_wrt_filter) simp
  then have "sorted_wrt (\<lambda>i j. crossing prices pnl i \<le> crossing prices pnl j) ?is"
    by (rule sorted_wrt_mono_rel [rotated]) (use step in blast)
  then show ?thesis by (simp add: sorted_map)
qed

text \<open>
  C3 as the claim states it fails: on the strictly increasing grid 0, 3, 4 the curve
  0.1, 0, -1 gives the two break-even points 3.0000000000000004 and 3.0, in this order,
  which is not ascending.
\<close>

theorem break_even_crossings_counterexample:
  "length [0, 3, 4 :: real] = length [lit (1 / 10), 0, - 1] \<and>
   sorted_wrt (<) [0, 3, 4 :: real] \<and>
   find_break_even_points [0, 3, 4] [lit (1 / 10), 0, - 1] =
     Inr [Finite (6755399441055745 / 2251799813685248), Finite 3] \<and>
   \<not> (6755399441055745 / 2251799813685248 \<le> (3 :: real))"
  by (simp add: find_break_even_points_def np_where_def np_diff_def np_sign_def upt_rec
      float_eval)

text \<open>
  C3, amended. For a strictly increasing grid and a curve of the same length,
  \<^verbatim>\<open>find_break_even_points\<close> returns, without error, exactly one value for each adjacent
  pair whose signs differ (zero a sign of its own) and whose difference is not zero: the
  linear interpolation of the pair, evaluated in binary64. The values are listed by
  ascending index of the pair. The interpolation points ascend in exact arithmetic; the
  rounded values that are returned need not. A curve without a sign change gives the empty
  list.
\<close>

theorem break_even_crossings:
  assumes "length prices = length pnl" and "sorted_wrt (<) prices"
  shows "find_break_even_points prices pnl = Inr (findCrossings prices pnl) \<and>
         findCrossings prices pnl = map (crossing64 prices pnl) (crossing_pairs pnl) \<and>
         sorted_wrt (<) (crossing_pairs pnl) \<and>
         set (crossing_pairs pnl) =
           {i. i + 1 < length pnl \<and> bucket (pnl ! i) \<noteq> bucket (pnl ! (i + 1)) \<and>
               fsub (Finite (pnl ! (i + 1))) (Finite (pnl ! i)) \<noteq> Finite 0} \<and>
         sorted (map (crossing prices pnl) (crossing_pairs pnl)) \<and>
         ((\<forall>i. i + 1 < length pnl \<longrightarrow> bucket (pnl ! i) = bucket (pnl ! (i + 1))) \<longrightarrow>
            find_break_even_points prices pnl = Inr [])"
proof -
  have empty: "crossing_pairs pnl = []"
    if "\<forall>i. i + 1 < length pnl \<longrightarrow> bucket (pnl ! i) = bucket (pnl ! (i + 1))"
    using that by (auto simp: crossing_pairs_def filter_empty_conv)
  have order: "sorted_wrt (<) (crossing_pairs pnl)"
    unfolding crossing_pairs_def by (intro sorted_wrt_filter) simp
  have pairs: "set (crossing_pairs pnl) =
      {i. i + 1 < length pnl \<and> bucket (pnl ! i) \<noteq> bucket (pnl ! (i + 1)) \<and>
          fsub (Finite (pnl ! (i + 1))) (Finite (pnl ! i)) \<noteq> Finite 0}"
    by (auto simp: crossing_pairs_def)
  have "find_break_even_points prices pnl = Inr []"
    if "\<forall>i. i + 1 < length pnl \<longrightarrow> bucket (pnl ! i) = bucket (pnl ! (i + 1))"
    using find_break_even_points_eq [OF assms(1)] empty [OF that] by (simp add: findCrossings_def)
  then show ?thesis
    using find_break_even_points_eq [OF assms(1)] exact_crossings_sorted [OF assms] order pairs
    by (simp add: findCrossings_def)
qed

theorem break_even_crossings_witness:
  "length [0, 1, 2, 3 :: real] = length [- 1, 1, 0, - 2 :: real] \<and>
   sorted_wrt (<) [0, 1, 2, 3 :: real] \<and>
   find_break_even_points [0, 1, 2, 3] [- 1, 1, 0, - 2] = Inr [Finite (1 / 2), Finite 2, Finite 2] \<and>
   find_break_even_points [0, 1, 2] [5, 5, 5] = Inr []"
  using break_even_crossings [of "[0, 1, 2, 3]" "[- 1, 1, 0, - 2]"]
    break_even_crossings [of "[0, 1, 2]" "[5, 5, 5]"]
  by (simp add: findCrossings_def crossing_pairs_def bucket_def crossing64_def upt_rec float_eval)

subsection \<open>Margin\<close>


lemma margin_guard:
  "fle (net_premium legs) (Finite 0) \<Longrightarrow> calculate_us_margin strategy_name legs m = Inr (Finite 0)"
  by (simp add: calculate_us_margin_def)

lemma margin_other_name:
  "strategy_name \<notin> {''Iron Condor'', ''Bull Put Spread'', ''Bear Call Spread''} \<Longrightarrow>
     calculate_us_margin strategy_name legs m = Inr (Finite 0)"
  by (simp add: calculate_us_margin_def)

text \<open>The sum of two finite premiums is a number: it can overflow, but to an infinity.\<close>

lemma net_premium_pair_not_nan: "net_premium [l1, l2] \<noteq> NaN64"
proof -
  have "fadd (round64 a) (Finite b) \<noteq> NaN64" for a b
    by (cases "round64 a") (simp_all add: round64_not_nan)
  then show ?thesis by (simp add: net_premium_def)
qed




text \<open>
  C7 as the claim states it fails: a Bull Put Spread whose two premiums give a net debit
  has margin 0, not the strike width times the multiplier.
\<close>

theorem credit_vertical_margin_counterexample:
  "strike \<lparr>type = ''short_put'', strike = 100, premium = lit (6 / 5)\<rparr> \<noteq>
     strike \<lparr>type = ''long_put'', strike = 90, premium = 3\<rparr> \<and>
   calculate_us_margin ''Bull Put Spread''
     [\<lparr>type = ''short_put'', strike = 100, premium = lit (6 / 5)\<rparr>,
      \<lparr>type = ''long_put'', strike = 90, premium = 3\<rparr>] 100 = Inr (Finite 0) \<and>
   Finite 0 \<noteq> Finite ((100 - 90) * 100)"
  by (simp add: calculate_us_margin_def net_premium_def float_eval)

text \<open>
  C7, amended. For the names Bull Put Spread and Bear Call Spread, any two legs of distinct
  strikes and any multiplier: when the net premium per unit that line 31 computes is
  strictly positive the margin is (highest strike - lowest strike) * multiplier, evaluated
  in binary64, and when it is zero or less the margin is 0; one of the two is the case. For
  every name other than Iron Condor, Bull Put Spread and Bear Call Spread the margin is 0,
  whatever the legs.
\<close>

theorem credit_vertical_margin:
  "((strategy_name = ''Bull Put Spread'' \<or> strategy_name = ''Bear Call Spread'') \<and>
    strike l1 \<noteq> strike l2 \<longrightarrow>
      (flt (Finite 0) (net_premium [l1, l2]) \<longrightarrow>
         calculate_us_margin strategy_name [l1, l2] m =
           Inr (fmul (fsub (Finite (max (strike l1) (strike l2)))
                           (Finite (min (strike l1) (strike l2)))) (Finite m))) \<and>
      (fle (net_premium [l1, l2]) (Finite 0) \<longrightarrow>
         calculate_us_margin strategy_name [l1, l2] m = Inr (Finite 0)) \<and>
      (flt (Finite 0) (net_premium [l1, l2]) \<or> fle (net_premium [l1, l2]) (Finite 0))) \<and>
   (strategy_name \<notin> {''Iron Condor'', ''Bull Put Spread'', ''Bear Call Spread''} \<longrightarrow>
      calculate_us_margin strategy_name legs m = Inr (Finite 0))"
proof -
  have pos: "calculate_us_margin strategy_name [l1, l2] m =
      Inr (fmul (fsub (Finite (max (strike l1) (strike l2)))
                      (Finite (min (strike l1) (strike l2)))) (Finite m))"
    if "strategy_name = ''Bull Put Spread'' \<or> strategy_name = ''Bear Call Spread''"
      and "flt (Finite 0) (net_premium [l1, l2])"
  proof -
    have "\<not> fle (net_premium [l1, l2]) (Finite 0)"
      using that(2) by (simp add: not_fle_zero)
    then show ?thesis
      using that(1) by (auto simp: calculate_us_margin_def max.commute min.commute)
  qed
  have one: "flt (Finite 0) (net_premium [l1, l2]) \<or> fle (net_premium [l1, l2]) (Finite 0)"
    using not_fle_zero [of "net_premium [l1, l2]"] net_premium_pair_not_nan [of l1 l2] by blast
  show ?thesis
    using pos one margin_guard [of "[l1, l2]" strategy_name m]
      margin_other_name [of strategy_name legs m]
    by blast
qed

theorem credit_vertical_margin_witness:
  "calculate_us_margin ''Bull Put Spread''
     [\<lparr>type = ''short_put'', strike = 100, premium = 3\<rparr>,
      \<lparr>type = ''long_put'', strike = 90, premium = lit (6 / 5)\<rparr>] 100 = Inr (Finite 1000) \<and>
   calculate_us_margin ''Bull Put Spread''
     [\<lparr>type = ''short_put'', strike = 100, premium = lit (6 / 5)\<rparr>,
      \<lparr>type = ''long_put'', strike = 90, premium = 3\<rparr>] 100 = Inr (Finite 0) \<and>
   calculate_us_margin ''Bull Call Spread''
     [\<lparr>type = ''short_put'', strike = 100, premium = 3\<rparr>,
      \<lparr>type = ''long_put'', strike = 90, premium = lit (6 / 5)\<rparr>] 100 = Inr (Finite 0)"
  using credit_vertical_margin
    [of "''Bull Put Spread''" "\<lparr>type = ''short_put'', strike = 100, premium = 3\<rparr>"
        "\<lparr>type = ''long_put'', strike = 90, premium = lit (6 / 5)\<rparr>" 100 "[]"]
    credit_vertical_margin
    [of "''Bull Put Spread''" "\<lparr>type = ''short_put'', strike = 100, premium = lit (6 / 5)\<rparr>"
        "\<lparr>type = ''long_put'', strike = 90, premium = 3\<rparr>" 100 "[]"]
    credit_vertical_margin
    [of "''Bull Call Spread''" "\<lparr>type = ''short_put'', strike = 100, premium = 3\<rparr>"
        "\<lparr>type = ''long_put'', strike = 90, premium = lit (6 / 5)\<rparr>" 100
        "[\<lparr>type = ''short_put'', strike = 100, premium = 3\<rparr>,
          \<lparr>type = ''long_put'', strike = 90, premium = lit (6 / 5)\<rparr>]"]
  by (simp add: net_premium_def float_eval)




subsection \<open>Operations that do not round\<close>

text \<open>
  \<open>exponent\<close> is the binary exponent, and a number \<open>m * 2\<^sup>j\<close> with \<open>\<bar>m\<bar> < 2\<^sup>5\<^sup>3\<close> in the range
  of binary64 is its own rounding. In particular the multiples of one quarter up to
  \<open>2\<^sup>5\<^sup>0\<close> are added and subtracted without error.
\<close>

lemma two_power_le_real: "(2::int) ^ n \<le> k \<Longrightarrow> (2::real) ^ n \<le> of_int k"
  by simp

lemma succ_le_two_power_real:
  assumes "k < (2::int) ^ n"
  shows "real_of_int k + 1 \<le> 2 ^ n"
proof -
  from assms have "k + 1 \<le> 2 ^ n" by simp
  then have "real_of_int (k + 1) \<le> real_of_int (2 ^ n)" by (rule iffD2 [OF of_int_le_iff])
  then show ?thesis unfolding of_int_add of_int_1 of_int_power of_int_numeral .
qed

lemma exponent_bounds:
  assumes "x \<noteq> 0"
  shows "2 powi exponent x \<le> \<bar>x\<bar>" and "\<bar>x\<bar> < 2 powi (exponent x + 1)"
proof -
  have "2 powi exponent x \<le> \<bar>x\<bar> \<and> \<bar>x\<bar> < 2 powi (exponent x + 1)"
  proof (cases "1 \<le> \<bar>x\<bar>")
    case True
    define n where "n = \<lfloor>\<bar>x\<bar>\<rfloor>"
    have n: "0 < n" using True by (simp add: n_def)
    have b: "1 \<le> bitlen n" using n by (simp add: bitlen_alt_def)
    from bitlen_bounds [OF n]
    have lo: "2 ^ nat (bitlen n - 1) \<le> n" and hi: "n < 2 ^ nat (bitlen n)" by simp_all
    have e: "exponent x = bitlen n - 1" using True by (simp add: exponent_def n_def)
    have "(2::real) powi (bitlen n - 1) = 2 ^ nat (bitlen n - 1)"
      using b by (simp add: power_int_def)
    also have "\<dots> \<le> real_of_int n" using lo by (rule two_power_le_real)
    also have "\<dots> \<le> \<bar>x\<bar>" by (simp add: n_def)
    finally have 1: "2 powi exponent x \<le> \<bar>x\<bar>" by (simp add: e)
    have "real_of_int n + 1 \<le> 2 ^ nat (bitlen n)" using hi by (rule succ_le_two_power_real)
    moreover have "\<bar>x\<bar> < real_of_int n + 1" by (simp add: n_def)
    ultimately have "\<bar>x\<bar> < 2 ^ nat (bitlen n)" by simp
    also have "\<dots> = (2::real) powi (bitlen n)" using b by (simp add: power_int_def)
    finally have "\<bar>x\<bar> < 2 powi (exponent x + 1)" by (simp add: e)
    with 1 show ?thesis by simp
  next
    case False
    define y where "y = 1 / \<bar>x\<bar>"
    define k where "k = \<lceil>y\<rceil> - 1"
    have x: "0 < \<bar>x\<bar>" "\<bar>x\<bar> < 1" using False assms by simp_all
    have y: "1 < y" using x by (simp add: y_def)
    have k: "0 < k" using y by (simp add: k_def less_ceiling_iff)
    have b: "1 \<le> bitlen k" using k by (simp add: bitlen_alt_def)
    from bitlen_bounds [OF k]
    have lo: "2 ^ nat (bitlen k - 1) \<le> k" and hi: "k < 2 ^ nat (bitlen k)" by simp_all
    have e: "exponent x = - bitlen k" using False by (simp add: exponent_def k_def y_def)
    have ky: "real_of_int k < y" unfolding k_def by linarith
    have yk: "y \<le> real_of_int (k + 1)" unfolding k_def by simp
    have ylo: "2 ^ nat (bitlen k - 1) < y" using two_power_le_real [OF lo] ky by linarith
    have "real_of_int k + 1 \<le> 2 ^ nat (bitlen k)" using hi by (rule succ_le_two_power_real)
    then have yhi: "y \<le> 2 ^ nat (bitlen k)" using yk by simp
    have xy: "\<bar>x\<bar> = 1 / y" using x by (simp add: y_def)
    have p1: "(2::real) powi (- bitlen k) = 1 / 2 ^ nat (bitlen k)"
      using b by (simp add: power_int_def field_simps)
    have p2: "(2::real) powi (- bitlen k + 1) = 1 / 2 ^ nat (bitlen k - 1)"
      using b by (simp add: power_int_def field_simps)
    have 1: "2 powi exponent x \<le> \<bar>x\<bar>"
      unfolding e p1 xy using yhi y by (simp add: frac_le)
    have 2: "\<bar>x\<bar> < 2 powi (exponent x + 1)"
      unfolding e p2 xy using ylo by (simp add: frac_less2)
    from 1 2 show ?thesis by simp
  qed
  then show "2 powi exponent x \<le> \<bar>x\<bar>" and "\<bar>x\<bar> < 2 powi (exponent x + 1)" by simp_all
qed

lemma round_half_even_of_int: "round_half_even (of_int k) = k"
  by (simp add: round_half_even_def)

lemma round64_exact:
  assumes x: "x = of_int m * 2 powi j" and m: "\<bar>m\<bar> < 2 ^ 53" and j: "- 1074 \<le> j"
    and fin: "\<bar>x\<bar> < 2 ^ 1024"
  shows "round64 x = Finite x"
proof (cases "x = 0")
  case True
  then show ?thesis by (simp add: round64_def)
next
  case False
  define E where "E = max (exponent x) (- 1022)"
  define d where "d = j - (E - 52)"
  have d: "0 \<le> d"
  proof (cases "- 1022 \<le> exponent x")
    case True
    have "2 powi exponent x \<le> \<bar>x\<bar>" using False by (rule exponent_bounds)
    also have "\<bar>x\<bar> = \<bar>real_of_int m\<bar> * 2 powi j" by (simp add: x abs_mult)
    also have "\<dots> < 2 ^ 53 * 2 powi j"
    proof (rule mult_strict_right_mono)
      show "\<bar>real_of_int m\<bar> < 2 ^ 53" using m by (metis of_int_abs of_int_less_iff of_int_numeral of_int_power)
      show "(0::real) < 2 powi j" by simp
    qed
    also have "\<dots> = 2 powi (53 + j)" by (simp add: power_int_add)
    finally have "(2::real) powi exponent x < 2 powi (53 + j)" .
    then have "exponent x < 53 + j"
      using power_int_increasing [of "53 + j" "exponent x" "2::real"] by force
    then show ?thesis using True by (simp add: d_def E_def)
  next
    case False
    then show ?thesis using j by (simp add: d_def E_def)
  qed
  have "x / 2 powi (E - 52) = real_of_int m * (2 powi j / 2 powi (E - 52))" by (simp add: x)
  also have "2 powi j / 2 powi (E - 52) = (2::real) powi d"
    by (simp add: d_def power_int_diff)
  also have "(2::real) powi d = 2 ^ nat d" using d by (simp add: power_int_def)
  finally have q: "x / 2 powi (E - 52) = real_of_int (m * 2 ^ nat d)" by simp
  have "real_of_int (m * 2 ^ nat d) * 2 powi (E - 52) = x"
    unfolding q [symmetric] by simp
  then show ?thesis
    using False fin
    by (simp add: round64_def Let_def E_def [symmetric] q round_half_even_of_int
        del: of_int_mult of_int_power)
qed

lemma round64_quarter:
  assumes "x = real_of_int m / 4" and "\<bar>x\<bar> \<le> 2 ^ 50"
  shows "round64 x = Finite x"
proof (rule round64_exact [where m = m and j = "- 2"])
  show "x = real_of_int m * 2 powi - 2" using assms(1) by (simp add: power_int_minus)
  have "\<bar>real_of_int m\<bar> \<le> 2 ^ 52" using assms by simp
  then have "\<bar>m\<bar> \<le> 2 ^ 52" by (metis of_int_abs of_int_le_iff of_int_numeral of_int_power)
  then show "\<bar>m\<bar> < 2 ^ 53" by simp
  show "\<bar>x\<bar> < 2 ^ 1024" using assms(2) by simp
qed simp

lemma round64_quarter_grid:
  assumes "4 * x \<in> \<int>" and "\<bar>x\<bar> \<le> 2 ^ 50"
  shows "round64 x = Finite x"
proof -
  from assms(1) obtain m :: int where "4 * x = of_int m" by (rule Ints_cases)
  then have "x = real_of_int m / 4" by simp
  then show ?thesis using assms(2) by (rule round64_quarter)
qed

lemma fadd_quarter_grid:
  "4 * a \<in> \<int> \<Longrightarrow> 4 * b \<in> \<int> \<Longrightarrow> \<bar>a + b\<bar> \<le> 2 ^ 50 \<Longrightarrow>
     fadd (Finite a) (Finite b) = Finite (a + b)"
  using Ints_add [of "4 * a" "4 * b"] by (simp add: round64_quarter_grid distrib_left)

lemma fsub_quarter_grid:
  "4 * a \<in> \<int> \<Longrightarrow> 4 * b \<in> \<int> \<Longrightarrow> \<bar>a - b\<bar> \<le> 2 ^ 50 \<Longrightarrow>
     fsub (Finite a) (Finite b) = Finite (a - b)"
  using Ints_diff [of "4 * a" "4 * b"]
  by (simp add: fsub_def round64_quarter_grid right_diff_distrib)

lemma half_is_quarter: "2 * x \<in> \<int> \<Longrightarrow> 4 * x \<in> \<int>"
  using Ints_mult [of 2 "2 * x"] by simp

subsection \<open>The price grid\<close>

lemma fold_min_le: "fold min xs (a :: real) \<le> a"
proof (induction xs arbitrary: a)
  case Nil
  show ?case by simp
next
  case (Cons x xs)
  have "fold min xs (min x a) \<le> min x a" by (rule Cons.IH)
  also have "\<dots> \<le> a" by simp
  finally show ?case by simp
qed

lemma fold_max_ge: "(a :: real) \<le> fold max xs a"
proof (induction xs arbitrary: a)
  case Nil
  show ?case by simp
next
  case (Cons x xs)
  have "a \<le> max x a" by simp
  also have "\<dots> \<le> fold max xs (max x a)" by (rule Cons.IH)
  finally show ?case by simp
qed

lemma py_min_le_py_max:
  assumes "py_min strikes = Inr mn" and "py_max strikes = Inr mx"
  shows "mn \<le> mx"
proof (cases strikes)
  case Nil
  with assms show ?thesis by simp
next
  case (Cons k ks)
  with assms have "mn = fold min ks k" "mx = fold max ks k" by simp_all
  then show ?thesis using fold_min_le [of ks k] fold_max_ge [of k ks] by simp
qed

text \<open>The points of the grid, as numpy fills them in.\<close>

lemma np_arange_points:
  assumes "fdiv (fsub stop start) (Finite (1 / 2)) = Finite v"
    and "- (2 ^ 63) \<le> \<lceil>v\<rceil>" and "\<lceil>v\<rceil> \<le> 2 ^ 63"
  shows "np_arange start stop =
           Inr (map (\<lambda>i. if i = 0 then start
                          else if i = 1 then fadd start (Finite (1 / 2))
                          else fadd start (fmul (round64 (real i))
                                 (fsub (fadd start (Finite (1 / 2))) start)))
                    [0..<nat \<lceil>v\<rceil>])"
  using assms by (simp add: np_arange_def Let_def not_less [symmetric])

lemma buffer_value_quarter:
  fixes mn mx :: real
  assumes "2 * mn \<in> \<int>" and "2 * mx \<in> \<int>"
  shows "4 * (if mx > mn then (mx - mn) * (3 / 2) else 20) \<in> \<int>"
proof (cases "mx > mn")
  case True
  have "4 * ((mx - mn) * (3 / 2)) = 3 * (2 * mx - 2 * mn)" by (simp add: field_simps)
  moreover have "3 * (2 * mx - 2 * mn) \<in> \<int>" by (intro Ints_mult Ints_diff assms) simp
  ultimately show ?thesis using True by (simp only: if_True)
next
  case False
  then show ?thesis by simp
qed

lemma buffer_half_grid:
  assumes "2 * mn \<in> \<int>" and "2 * mx \<in> \<int>" and "\<bar>mn\<bar> \<le> 2 ^ 40" and "\<bar>mx\<bar> \<le> 2 ^ 40"
  shows "buffer mn mx = Finite (if mx > mn then (mx - mn) * (3 / 2) else 20)"
proof (cases "mx > mn")
  case True
  have d: "fsub (Finite mx) (Finite mn) = Finite (mx - mn)"
    using assms by (intro fsub_quarter_grid half_is_quarter) simp_all
  have "4 * ((mx - mn) * (3 / 2)) \<in> \<int>"
    using buffer_value_quarter [OF assms(1,2)] True by (simp only: if_True)
  moreover have "\<bar>(mx - mn) * (3 / 2)\<bar> \<le> 2 ^ 50" using assms(3,4) by (simp add: abs_mult)
  ultimately have "round64 ((mx - mn) * (3 / 2)) = Finite ((mx - mn) * (3 / 2))"
    by (rule round64_quarter_grid)
  then show ?thesis using True by (simp add: buffer_def d)
next
  case False
  then show ?thesis by (simp add: buffer_def)
qed

lemma S_grid_half_grid:
  assumes mn: "py_min strikes = Inr mn" and mx: "py_max strikes = Inr mx"
    and imn: "2 * mn \<in> \<int>" and imx: "2 * mx \<in> \<int>"
    and bmn: "\<bar>mn\<bar> \<le> 2 ^ 40" and bmx: "\<bar>mx\<bar> \<le> 2 ^ 40"
  defines "b \<equiv> (if mx > mn then (mx - mn) * (3 / 2) else 20)"
  defines "lo \<equiv> mn - b" and "hi \<equiv> mx + b"
  shows "S_grid strikes =
           Inr (map (\<lambda>i. Finite (lo + real i * (1 / 2))) [0..<nat \<lceil>(hi - lo) / (1 / 2)\<rceil>])"
proof -
  have le: "mn \<le> mx" using mn mx by (rule py_min_le_py_max)
  have b0: "0 < b" and b1: "b \<le> 2 ^ 42" using le bmn bmx by (auto simp: b_def)
  have ib: "4 * b \<in> \<int>" unfolding b_def using imn imx by (rule buffer_value_quarter)
  have buf: "buffer mn mx = Finite b"
    unfolding b_def using imn imx bmn bmx by (rule buffer_half_grid)
  have ilo: "4 * lo \<in> \<int>"
    unfolding lo_def right_diff_distrib by (intro Ints_diff half_is_quarter imn ib)
  have ihi: "4 * hi \<in> \<int>"
    unfolding hi_def distrib_left by (intro Ints_add half_is_quarter imx ib)
  have blo: "\<bar>lo\<bar> \<le> 2 ^ 43" and bhi: "\<bar>hi\<bar> \<le> 2 ^ 43"
    using bmn bmx b0 b1 by (simp_all add: lo_def hi_def)
  have lohi: "lo < hi" using le b0 by (simp add: lo_def hi_def)
  have LO: "fsub (Finite mn) (Finite b) = Finite lo"
    unfolding lo_def using bmn b0 b1 by (intro fsub_quarter_grid half_is_quarter imn ib) simp
  have HI: "fadd (Finite mx) (Finite b) = Finite hi"
    unfolding hi_def using bmx b0 b1 by (intro fadd_quarter_grid half_is_quarter imx ib) simp
  have grid: "S_grid strikes = np_arange (Finite lo) (Finite hi)"
    using HI by (simp add: S_grid_def mn mx buf LO)
  define v where "v = (hi - lo) / (1 / 2)"
  have v2: "v = 2 * (hi - lo)" by (simp add: v_def)
  have bv: "0 < v" "v \<le> 2 ^ 45" using lohi blo bhi by (simp_all add: v2)
  have "4 * v = 2 * (4 * hi - 4 * lo)" by (simp add: v2)
  moreover have "2 * (4 * hi - 4 * lo) \<in> \<int>" by (intro Ints_mult Ints_diff ihi ilo) simp
  ultimately have iv: "4 * v \<in> \<int>" by (simp only:)
  have D: "fsub (Finite hi) (Finite lo) = Finite (hi - lo)"
    using blo bhi by (intro fsub_quarter_grid ihi ilo) simp
  have "round64 v = Finite v" using iv bv by (intro round64_quarter_grid) simp_all
  then have Q: "fdiv (fsub (Finite hi) (Finite lo)) (Finite (1 / 2)) = Finite v"
    by (simp add: D v_def)
  have c1: "- (2 ^ 63) \<le> \<lceil>v\<rceil>" using bv(1) by (simp add: le_ceiling_iff)
  have c2: "\<lceil>v\<rceil> \<le> 2 ^ 63" using bv(2) by (simp add: ceiling_le_iff)
  have N: "fadd (Finite lo) (Finite (1 / 2)) = Finite (lo + 1 / 2)"
    using blo by (intro fadd_quarter_grid ilo) simp_all
  have ilo': "4 * (lo + 1 / 2) \<in> \<int>"
    unfolding distrib_left by (intro Ints_add ilo) simp
  have "fsub (Finite (lo + 1 / 2)) (Finite lo) = Finite (lo + 1 / 2 - lo)"
    by (intro fsub_quarter_grid ilo' ilo) simp
  then have DL: "fsub (Finite (lo + 1 / 2)) (Finite lo) = Finite (1 / 2)" by simp
  have item: "fadd (Finite lo) (fmul (round64 (real i)) (Finite (1 / 2))) =
      Finite (lo + real i * (1 / 2))" if "i < nat \<lceil>v\<rceil>" for i
  proof -
    have "int i < \<lceil>v\<rceil>" using that by simp
    then have iv: "real i < v" by (simp add: less_ceiling_iff)
    then have bi: "real i \<le> 2 ^ 45" using bv(2) by simp
    have "4 * real i \<in> \<int>" by (intro Ints_mult Ints_of_nat) simp
    then have R: "round64 (real i) = Finite (real i)"
      using bi by (intro round64_quarter_grid) simp_all
    have "4 * (real i * (1 / 2)) = 2 * real i" by simp
    moreover have "2 * real i \<in> \<int>" by (intro Ints_mult Ints_of_nat) simp
    ultimately have ih: "4 * (real i * (1 / 2)) \<in> \<int>" by (simp only:)
    then have M: "round64 (real i * (1 / 2)) = Finite (real i * (1 / 2))"
      using bi by (intro round64_quarter_grid) simp_all
    have F: "fadd (Finite lo) (Finite (real i * (1 / 2))) = Finite (lo + real i * (1 / 2))"
      using blo bi by (intro fadd_quarter_grid ilo ih) simp
    have FM: "fmul (round64 (real i)) (Finite (1 / 2)) = Finite (real i * (1 / 2))"
      by (simp only: R fmul.simps M)
    show ?thesis by (simp only: FM F)
  qed
  have "np_arange (Finite lo) (Finite hi) =
      Inr (map (\<lambda>i. if i = 0 then Finite lo
                     else if i = 1 then fadd (Finite lo) (Finite (1 / 2))
                     else fadd (Finite lo) (fmul (round64 (real i))
                            (fsub (fadd (Finite lo) (Finite (1 / 2))) (Finite lo))))
               [0..<nat \<lceil>v\<rceil>])"
    using Q c1 c2 by (rule np_arange_points)
  also have "map (\<lambda>i. if i = 0 then Finite lo
                     else if i = 1 then fadd (Finite lo) (Finite (1 / 2))
                     else fadd (Finite lo) (fmul (round64 (real i))
                            (fsub (fadd (Finite lo) (Finite (1 / 2))) (Finite lo))))
               [0..<nat \<lceil>v\<rceil>] =
             map (\<lambda>i. Finite (lo + real i * (1 / 2))) [0..<nat \<lceil>v\<rceil>]"
  proof (rule map_cong [OF refl])
    fix i assume "i \<in> set [0..<nat \<lceil>v\<rceil>]"
    then have i: "i < nat \<lceil>v\<rceil>" by simp
    show "(if i = 0 then Finite lo
           else if i = 1 then fadd (Finite lo) (Finite (1 / 2))
           else fadd (Finite lo) (fmul (round64 (real i))
                  (fsub (fadd (Finite lo) (Finite (1 / 2))) (Finite lo)))) =
          Finite (lo + real i * (1 / 2))"
    proof (cases "i = 0")
      case True
      then show ?thesis by simp
    next
      case nz: False
      show ?thesis
      proof (cases "i = 1")
        case True
        then show ?thesis using N by simp
      next
        case False
        then show ?thesis using nz item [OF i] by (simp only: N DL if_False)
      qed
    qed
  qed
  finally show ?thesis unfolding grid v_def .
qed

lemma arange_below:
  assumes "0 < step" and "i < nat \<lceil>(hi - lo) / step\<rceil>"
  shows "lo + real i * step < hi"
proof -
  have "int i < \<lceil>(hi - lo) / step\<rceil>" using assms(2) by simp
  then have "real i < (hi - lo) / step" by (simp add: less_ceiling_iff)
  then have "real i * step < hi - lo" using assms(1) by (simp add: pos_less_divide_eq)
  then show ?thesis by simp
qed

lemma arange_reaches:
  assumes "0 < step"
  shows "hi \<le> lo + real (nat \<lceil>(hi - lo) / step\<rceil>) * step"
proof -
  have "(hi - lo) / step \<le> real_of_int \<lceil>(hi - lo) / step\<rceil>" by (rule le_of_int_ceiling)
  also have "\<dots> \<le> real (nat \<lceil>(hi - lo) / step\<rceil>)" by simp
  finally have "hi - lo \<le> real (nat \<lceil>(hi - lo) / step\<rceil>) * step"
    using assms by (simp add: pos_divide_le_eq)
  then show ?thesis by simp
qed

lemma generate_sequence:
  assumes "0 < step" and "lo < hi"
  shows "\<exists>ys. generate lo hi step = Inr ys \<and> ys \<noteq> [] \<and> hd ys = lo \<and> sorted_wrt (<) ys \<and>
           (\<forall>i < length ys. ys ! i = lo + real i * step) \<and> (\<forall>y \<in> set ys. y < hi) \<and>
           hi \<le> lo + real (length ys) * step"
proof -
  let ?n = "nat \<lceil>(hi - lo) / step\<rceil>"
  let ?ys = "map (\<lambda>i. lo + real i * step) [0..<?n]"
  have eq: "generate lo hi step = Inr ?ys" using assms by (simp add: generate_def)
  have "0 < (hi - lo) / step" using assms by simp
  then have "0 < \<lceil>(hi - lo) / step\<rceil>" by (simp add: less_ceiling_iff)
  then have n: "0 < ?n" by simp
  then have a: "?ys \<noteq> []" by simp
  have b: "hd ?ys = lo" using n by (simp add: hd_map upt_conv_Cons)
  have c: "sorted_wrt (<) ?ys" using assms(1) by (simp add: sorted_wrt_map sorted_wrt_iff_nth_less)
  have d: "\<forall>i < length ?ys. ?ys ! i = lo + real i * step" by simp
  have e: "\<forall>y \<in> set ?ys. y < hi" using arange_below [OF assms(1)] by auto
  have f: "hi \<le> lo + real (length ?ys) * step" using arange_reaches [OF assms(1)] by simp
  from eq a b c d e f show ?thesis by blast
qed

lemma S_grid_structure:
  assumes mn: "py_min strikes = Inr mn" and mx: "py_max strikes = Inr mx"
    and xs: "S_grid strikes = Inr xs"
  defines "lowBound \<equiv> fsub (Finite mn) (buffer mn mx)"
  defines "highBound \<equiv> fadd (Finite mx) (buffer mn mx)"
  shows "(\<exists>v. fdiv (fsub highBound lowBound) (Finite (1 / 2)) = Finite v \<and>
              length xs = nat \<lceil>v\<rceil>) \<and>
         (xs \<noteq> [] \<longrightarrow> hd xs = lowBound) \<and>
         (1 < length xs \<longrightarrow> xs ! 1 = fadd lowBound (Finite (1 / 2))) \<and>
         (\<forall>i. 2 \<le> i \<and> i < length xs \<longrightarrow>
            xs ! i = fadd lowBound
                       (fmul (round64 (real i)) (fsub (fadd lowBound (Finite (1 / 2))) lowBound)))"
proof -
  have grid: "np_arange lowBound highBound = Inr xs"
    using xs by (simp add: S_grid_def mn mx lowBound_def highBound_def)
  then obtain v where v: "fdiv (fsub highBound lowBound) (Finite (1 / 2)) = Finite v"
    by (cases "fdiv (fsub highBound lowBound) (Finite (1 / 2))") (simp_all add: np_arange_def)
  let ?item = "\<lambda>i. if i = 0 then lowBound
                   else if i = 1 then fadd lowBound (Finite (1 / 2))
                   else fadd lowBound (fmul (round64 (real i))
                          (fsub (fadd lowBound (Finite (1 / 2))) lowBound))"
  have eq: "xs = map ?item [0..<nat \<lceil>v\<rceil>]"
    using grid v by (simp add: np_arange_def Let_def split: if_splits)
  have len: "length xs = nat \<lceil>v\<rceil>" by (simp add: eq)
  have hd: "hd xs = lowBound" if "xs \<noteq> []"
  proof -
    from that have "0 < length xs" by simp
    then have "0 < nat \<lceil>v\<rceil>" by (simp only: len)
    then show ?thesis by (simp add: eq hd_map upt_conv_Cons)
  qed
  have nth: "xs ! i = ?item i" if "i < length xs" for i
    using that by (simp add: eq)
  show ?thesis using v len hd nth by auto
qed

text \<open>
  C8 as the claim states it fails: for the strikes 98.67 and 115.67 the grid of the script
  has 137 points and the last one is the high bound itself, not a point strictly before
  it; for the strikes \<open>2\<^sup>5\<^sup>3\<close> and \<open>2\<^sup>5\<^sup>3 + 2\<close> the grid repeats points, so it is not strictly
  increasing, and runs past its high bound 9007199254740996.
\<close>

theorem price_grid_counterexample:
  "map_sum id length (S_grid [lit (9867 / 100), lit (11567 / 100)]) = Inr 137 \<and>
   map_sum id last (S_grid [lit (9867 / 100), lit (11567 / 100)]) =
     Inr (Finite (2483488903890207 / 17592186044416)) \<and>
   fadd (Finite (lit (11567 / 100))) (buffer (lit (9867 / 100)) (lit (11567 / 100))) =
     Finite (2483488903890207 / 17592186044416) \<and>
   S_grid [2 ^ 53, 2 ^ 53 + 2] =
     Inr [Finite 9007199254740989, Finite 9007199254740990, Finite 9007199254740991,
          Finite 9007199254740992, Finite 9007199254740992, Finite 9007199254740994,
          Finite 9007199254740996, Finite 9007199254740996, Finite 9007199254740996,
          Finite 9007199254740998, Finite 9007199254741000, Finite 9007199254741000,
          Finite 9007199254741000, Finite 9007199254741002] \<and>
   fadd (Finite (2 ^ 53 + 2)) (buffer (2 ^ 53) (2 ^ 53 + 2)) = Finite 9007199254740996"
proof -
  let ?lo = "Finite (5148881011479675 / 70368744177664)"
  let ?hi = "Finite (2483488903890207 / 17592186044416)"
  have k1: "lit (9867 / 100) = 6943283988010107 / 70368744177664" by (simp add: float_eval)
  have k2: "lit (11567 / 100) = 8139552639030395 / 70368744177664" by (simp add: float_eval)
  have b: "buffer (6943283988010107 / 70368744177664) (8139552639030395 / 70368744177664) =
      Finite (51 / 2)"
    by (simp add: buffer_def float_eval)
  have lo: "fsub (Finite (6943283988010107 / 70368744177664)) (Finite (51 / 2)) = ?lo"
    by (simp add: float_eval)
  have hi: "fadd (Finite (8139552639030395 / 70368744177664)) (Finite (51 / 2)) = ?hi"
    by (simp add: float_eval)
  have q: "fdiv (fsub ?hi ?lo) (Finite (1 / 2)) = Finite (4785074604081153 / 35184372088832)"
    by (simp add: float_eval)
  have n: "nat \<lceil>4785074604081153 / 35184372088832 :: real\<rceil> = 137" by simp
  have grid: "S_grid [lit (9867 / 100), lit (11567 / 100)] = np_arange ?lo ?hi"
    unfolding k1 k2 using hi by (simp add: S_grid_def b lo)
  note pts = np_arange_points [OF q, unfolded n]
  have last: "fadd ?lo (fmul (round64 (real 136)) (fsub (fadd ?lo (Finite (1 / 2))) ?lo)) = ?hi"
    by (simp add: float_eval)
  have 1: "map_sum id length (S_grid [lit (9867 / 100), lit (11567 / 100)]) = Inr 137"
    unfolding grid by (subst pts) simp_all
  have 2: "map_sum id last (S_grid [lit (9867 / 100), lit (11567 / 100)]) = Inr ?hi"
    unfolding grid by (subst pts) (simp_all add: last_map last [simplified] del: upt_Suc)
  have 3: "fadd (Finite (lit (11567 / 100))) (buffer (lit (9867 / 100)) (lit (11567 / 100))) = ?hi"
    unfolding k1 k2 b by (rule hi)
  have 4: "S_grid [2 ^ 53, 2 ^ 53 + 2] =
     Inr [Finite 9007199254740989, Finite 9007199254740990, Finite 9007199254740991,
          Finite 9007199254740992, Finite 9007199254740992, Finite 9007199254740994,
          Finite 9007199254740996, Finite 9007199254740996, Finite 9007199254740996,
          Finite 9007199254740998, Finite 9007199254741000, Finite 9007199254741000,
          Finite 9007199254741000, Finite 9007199254741002]"
    by (simp add: S_grid_def buffer_def np_arange_def upt_rec float_eval)
  have 5: "fadd (Finite (2 ^ 53 + 2)) (buffer (2 ^ 53) (2 ^ 53 + 2)) = Finite 9007199254740996"
    by (simp add: buffer_def float_eval)
  from 1 2 3 4 5 show ?thesis by blast
qed

text \<open>
  C8, amended. The price grid of the script is \<^verbatim>\<open>np.arange(lowBound, highBound, 0.5)\<close> on
  the bounds \<open>min - buffer\<close> and \<open>max + buffer\<close> that lines 133 and 134 compute from the
  strikes in binary64; the step is the literal 0.5 and the code has no
  \<^verbatim>\<open>InvalidRangeError\<close>. When the smallest and the largest strike are multiples of one half
  of magnitude at most \<open>2\<^sup>4\<^sup>0\<close>, no operation rounds, the low bound is below the high bound and
  the grid is the sequence of the specification: not empty, strictly increasing, starting
  at the low bound, advancing by 0.5 and stopping at the last point strictly before the
  high bound. For other strikes a grid that is returned has as many points as the ceiling
  of the binary64 quotient \<open>(highBound - lowBound) / 0.5\<close>, starts at the low bound when it
  is not empty, continues with \<open>lowBound + 0.5\<close>, and has at index \<open>i \<ge> 2\<close> the binary64
  value of \<open>lowBound + i * delta\<close>, \<open>delta\<close> the difference of the first two points; such a
  grid can reach the high bound and can repeat points.
\<close>

theorem price_grid_arange:
  assumes "py_min strikes = Inr mn" and "py_max strikes = Inr mx"
  defines "lowBound \<equiv> fsub (Finite mn) (buffer mn mx)"
  defines "highBound \<equiv> fadd (Finite mx) (buffer mn mx)"
  defines "b \<equiv> (if mx > mn then (mx - mn) * (3 / 2) else 20)"
  shows "S_grid strikes = np_arange lowBound highBound \<and>
         (\<forall>xs. S_grid strikes = Inr xs \<longrightarrow>
            (\<exists>v. fdiv (fsub highBound lowBound) (Finite (1 / 2)) = Finite v \<and>
                 length xs = nat \<lceil>v\<rceil>) \<and>
            (xs \<noteq> [] \<longrightarrow> hd xs = lowBound) \<and>
            (1 < length xs \<longrightarrow> xs ! 1 = fadd lowBound (Finite (1 / 2))) \<and>
            (\<forall>i. 2 \<le> i \<and> i < length xs \<longrightarrow>
               xs ! i = fadd lowBound
                          (fmul (round64 (real i))
                                (fsub (fadd lowBound (Finite (1 / 2))) lowBound)))) \<and>
         (real_of_int \<lfloor>2 * mn\<rfloor> = 2 * mn \<and> real_of_int \<lfloor>2 * mx\<rfloor> = 2 * mx \<and>
          \<bar>mn\<bar> \<le> 2 ^ 40 \<and> \<bar>mx\<bar> \<le> 2 ^ 40 \<longrightarrow>
            lowBound = Finite (mn - b) \<and> highBound = Finite (mx + b) \<and> mn - b < mx + b \<and>
            (\<exists>ys. generate (mn - b) (mx + b) (1 / 2) = Inr ys \<and>
                  S_grid strikes = Inr (map Finite ys) \<and>
                  ys \<noteq> [] \<and> hd ys = mn - b \<and> sorted_wrt (<) ys \<and>
                  (\<forall>i < length ys. ys ! i = mn - b + real i * (1 / 2)) \<and>
                  (\<forall>y \<in> set ys. y < mx + b) \<and>
                  mx + b \<le> mn - b + real (length ys) * (1 / 2)))"
proof (intro conjI allI impI)
  show "S_grid strikes = np_arange lowBound highBound"
    by (simp add: S_grid_def assms(1,2) lowBound_def highBound_def)
next
  fix xs assume xs: "S_grid strikes = Inr xs"
  note st = S_grid_structure [OF assms(1,2) xs, folded lowBound_def highBound_def]
  from st show "\<exists>v. fdiv (fsub highBound lowBound) (Finite (1 / 2)) = Finite v \<and>
      length xs = nat \<lceil>v\<rceil>" by blast
  { assume "xs \<noteq> []" with st show "hd xs = lowBound" by blast }
  { assume "1 < length xs" with st show "xs ! 1 = fadd lowBound (Finite (1 / 2))" by blast }
  { fix i assume "2 \<le> i \<and> i < length xs"
    with st show "xs ! i = fadd lowBound
        (fmul (round64 (real i)) (fsub (fadd lowBound (Finite (1 / 2))) lowBound))" by blast }
next
  assume h: "real_of_int \<lfloor>2 * mn\<rfloor> = 2 * mn \<and> real_of_int \<lfloor>2 * mx\<rfloor> = 2 * mx \<and>
          \<bar>mn\<bar> \<le> 2 ^ 40 \<and> \<bar>mx\<bar> \<le> 2 ^ 40"
  then have imn: "2 * mn \<in> \<int>" and imx: "2 * mx \<in> \<int>"
    by (metis Ints_of_int)+
  from h have bmn: "\<bar>mn\<bar> \<le> 2 ^ 40" and bmx: "\<bar>mx\<bar> \<le> 2 ^ 40" by simp_all
  have le: "mn \<le> mx" using assms(1,2) by (rule py_min_le_py_max)
  have b0: "0 < b" and b1: "b \<le> 2 ^ 42" using le bmn bmx by (auto simp: b_def)
  show lt: "mn - b < mx + b" using le b0 by simp
  have buf: "buffer mn mx = Finite b"
    unfolding b_def using imn imx bmn bmx by (rule buffer_half_grid)
  have ib: "4 * b \<in> \<int>" unfolding b_def using imn imx by (rule buffer_value_quarter)
  show "lowBound = Finite (mn - b)"
    unfolding lowBound_def buf using bmn b0 b1
    by (intro fsub_quarter_grid half_is_quarter imn ib) simp
  show "highBound = Finite (mx + b)"
    unfolding highBound_def buf using bmx b0 b1
    by (intro fadd_quarter_grid half_is_quarter imx ib) simp
  from generate_sequence [OF _ lt, of "1 / 2"]
  obtain ys where ys: "generate (mn - b) (mx + b) (1 / 2) = Inr ys" "ys \<noteq> []" "hd ys = mn - b"
    "sorted_wrt (<) ys" "\<forall>i < length ys. ys ! i = mn - b + real i * (1 / 2)"
    "\<forall>y \<in> set ys. y < mx + b" "mx + b \<le> mn - b + real (length ys) * (1 / 2)"
    by auto
  have "ys = map (\<lambda>i. mn - b + real i * (1 / 2)) [0..<nat \<lceil>(mx + b - (mn - b)) / (1 / 2)\<rceil>]"
    using ys(1) lt by (simp add: generate_def)
  then have "S_grid strikes = Inr (map Finite ys)"
    using S_grid_half_grid [OF assms(1,2) imn imx bmn bmx, folded b_def]
    by (simp add: comp_def)
  with ys show "\<exists>ys. generate (mn - b) (mx + b) (1 / 2) = Inr ys \<and>
                  S_grid strikes = Inr (map Finite ys) \<and>
                  ys \<noteq> [] \<and> hd ys = mn - b \<and> sorted_wrt (<) ys \<and>
                  (\<forall>i < length ys. ys ! i = mn - b + real i * (1 / 2)) \<and>
                  (\<forall>y \<in> set ys. y < mx + b) \<and>
                  mx + b \<le> mn - b + real (length ys) * (1 / 2)"
    by blast
qed

theorem price_grid_arange_witness:
  "py_min [100, 110] = Inr 100 \<and> py_max [100, 110] = Inr 110 \<and>
   real_of_int \<lfloor>2 * 100 :: real\<rfloor> = 2 * 100 \<and> \<bar>100 :: real\<bar> \<le> 2 ^ 40 \<and>
   generate 85 125 (1 / 2) = Inr (map (\<lambda>i. 85 + real i * (1 / 2)) [0..<80]) \<and>
   S_grid [100, 110] = Inr (map (\<lambda>i. Finite (85 + real i * (1 / 2))) [0..<80])"
proof -
  have mn: "py_min [100, 110] = Inr 100" and mx: "py_max [100, 110] = Inr 110" by simp_all
  have g: "generate 85 125 (1 / 2) = Inr (map (\<lambda>i. 85 + real i * (1 / 2)) [0..<80])"
    by (simp add: generate_def)
  from price_grid_arange [OF mn mx]
  obtain ys where "generate 85 125 (1 / 2) = Inr ys" "S_grid [100, 110] = Inr (map Finite ys)"
    by auto
  then have "S_grid [100, 110] = Inr (map (\<lambda>i. Finite (85 + real i * (1 / 2))) [0..<80])"
    unfolding g by (auto simp: comp_def)
  with mn mx g show ?thesis by simp
qed


subsection \<open>Return on capital\<close>

text \<open>
  C4. The capital basis is the absolute value of the net premium in currency when that is
  negative, and the margin otherwise.
\<close>

theorem cost_basis_cases:
  "(p < 0 \<longrightarrow> cost_basis p m = \<bar>p\<bar>) \<and> (\<not> p < 0 \<longrightarrow> cost_basis p m = m)"
  by (simp add: cost_basis_def)

theorem cost_basis_cases_witness:
  "((- 170 :: real) < 0 \<and> cost_basis (- 170) 0 = 170) \<and>
   (\<not> (180 :: real) < 0 \<and> cost_basis 180 1000 = 1000) \<and>
   (\<not> (0 :: real) < 0 \<and> cost_basis 0 500 = 500)"
  using cost_basis_cases [of "- 170" 0] cost_basis_cases [of 180 1000]
    cost_basis_cases [of 0 500]
  by simp

text \<open>
  C5. With a positive basis the return series is \<open>pnl / basis * 100\<close> point by point; with
  basis 0 it is a series of the same length whose every element is the undefined marker,
  a value and not an error.
\<close>

theorem roi_per_point_cases:
  "(0 < basis \<longrightarrow> roi_per_point pnl basis = map (\<lambda>p. Fin ((p / basis) * 100)) pnl) \<and>
   (basis = 0 \<longrightarrow>
      length (roi_per_point pnl basis) = length pnl \<and>
      (\<forall>i < length pnl. roi_per_point pnl basis ! i = NaN))"
  by (simp add: roi_per_point_def)

theorem roi_per_point_cases_witness:
  "(0 :: real) < 170 \<and>
   roi_per_point [- 170, 0, 85] 170 = [Fin (- 100), Fin 0, Fin 50] \<and>
   roi_per_point [- 170, 0, 85] 0 = [NaN, NaN, NaN]"
  using roi_per_point_cases [of 170 "[- 170, 0, 85]"] roi_per_point_cases [of 0 "[- 170, 0, 85]"]
  by (simp add: roi_per_point_def)

text \<open>
  C6. With a positive basis the total return is \<open>maxProfit / basis * 100\<close> for a net debit
  and \<open>netPremiumCurrency / basis * 100\<close> for a net credit (zero included); with basis 0 it
  is positive infinity, a value and not an error.
\<close>

theorem total_roi_cases:
  "(0 < basis \<and> credit < 0 \<longrightarrow>
      total_roi max_profit credit basis = Fin ((max_profit / basis) * 100)) \<and>
   (0 < basis \<and> 0 \<le> credit \<longrightarrow>
      total_roi max_profit credit basis = Fin ((credit / basis) * 100)) \<and>
   (basis = 0 \<longrightarrow> total_roi max_profit credit basis = PosInf)"
  by (simp add: total_roi_def)

theorem total_roi_cases_witness:
  "total_roi 340 (- 170) 170 = Fin 200 \<and> total_roi 180 180 1000 = Fin 18 \<and>
   total_roi 0 0 0 = PosInf"
  using total_roi_cases [of 170 "- 170" 340] total_roi_cases [of 1000 180 180]
    total_roi_cases [of 0 0 0]
  by simp

subsection \<open>The scenarios of the specification\<close>

text \<open>
  The Bull Put Spread of section 8: a short put at 100 for 3.00 and a long put at 90 for
  1.20 with multiplier 100 give a margin of 1000 and, on a net credit of 180, a total
  return of 18 percent.
\<close>

lemma bull_put_spread_scenario:
  "calculate_us_margin ''Bull Put Spread''
     [\<lparr>type = ''short_put'', strike = 100, premium = 3\<rparr>,
      \<lparr>type = ''long_put'', strike = 90, premium = lit (6 / 5)\<rparr>] 100 = Inr (Finite 1000) \<and>
   total_roi 180 180 (cost_basis 180 1000) = Fin 18"
  by (simp add: calculate_us_margin_def net_premium_def total_roi_def cost_basis_def float_eval)

text \<open>
  The Bull Call Spread of section 8: a long call at 100 for 2.50 and a short call at 110 for
  0.80 lose 170 at and below 100, gain 830 at and above 110, and break even at 101.70.
\<close>

lemma bull_call_spread_scenario:
  "pnl_currency [100, 101, 102, 110]
     [\<lparr>type = ''long_call'', strike = 100, premium = 5 / 2\<rparr>,
      \<lparr>type = ''short_call'', strike = 110, premium = 4 / 5\<rparr>] 100 = [- 170, - 70, 30, 830] \<and>
   find_break_even_points [100, 101, 102, 110] [- 170, - 70, 30, 830] =
     Inr [Finite (lit (1017 / 10))]"
  by (simp add: pnl_currency_def calculate_payoff_pointwise payoff_at_def direction_def
      option_type_def call_in_tag net_premium_points_def find_break_even_points_eq
      findCrossings_def crossing_pairs_def bucket_def crossing64_def upt_rec float_eval)

end
